theory Spec2Isabelle
  imports Complex_Main
begin

section \<open>Least-squares sphere fit of the fiducial notebook\<close>

text \<open>
  The notebook \<^verbatim>\<open>33_Segmentation_Thresholding_Edge_Detection.ipynb\<close> fits a sphere to
  the physical locations of the edge voxels:
  \<^verbatim>\<open>
  A = np.ones((len(physical_points),4))
  b = np.zeros(len(physical_points))

  for row, point in enumerate(physical_points):
      A[row,0:3] = -2*np.array(point)
      b[row] = -linalg.norm(point)**2

  res,_,_,_ = linalg.lstsq(A,b)

  print("The sphere's radius is: {0:.2f}mm".format(np.sqrt(linalg.norm(res[0:3])**2 - res[3])))
  \<close>
  The arithmetic is modelled over the real numbers: rounding, overflow and the formatting
  of the printed number to two decimals are not part of the model. The one floating-point
  value that is kept is the NaN that \<^verbatim>\<open>np.sqrt\<close> returns on a negative argument.
\<close>

subsection \<open>Data\<close>

text \<open>A physical point is the 3-tuple returned by \<^verbatim>\<open>TransformIndexToPhysicalPoint\<close>.\<close>

type_synonym point = "real \<times> real \<times> real"

text \<open>A one-dimensional array is a list, a two-dimensional array the list of its rows.\<close>

type_synonym vec = "real list"
type_synonym matrix = "real list list"

text \<open>The value of \<^verbatim>\<open>np.sqrt\<close>: a number, or NaN.\<close>

datatype npfloat = Finite real | NaN

text \<open>
  The two values the cell derives from the solution vector: the slice \<^verbatim>\<open>res[0:3]\<close>,
  whose norm enters the radius (the centre of the sphere), and the radius it prints.
\<close>

record SphereFitResult =
  center :: vec
  radius :: npfloat

text \<open>
  The error signals named by the specification. The cell has no \<^verbatim>\<open>raise\<close>, no
  \<^verbatim>\<open>assert\<close> and no test of its input, so the model below never produces one.
\<close>

datatype fit_error = InsufficientDataError | SingularSystemError | DegenerateFitError

subsection \<open>Array primitives\<close>

definition np_ones :: "nat \<Rightarrow> nat \<Rightarrow> matrix" where
  "np_ones m n = replicate m (replicate n 1)"

definition np_zeros :: "nat \<Rightarrow> vec" where
  "np_zeros m = replicate m 0"

fun np_array :: "point \<Rightarrow> vec" where
  "np_array (x, y, z) = [x, y, z]"

definition scale :: "real \<Rightarrow> vec \<Rightarrow> vec" where
  "scale k v = map (\<lambda>x. k * x) v"

definition dot :: "vec \<Rightarrow> vec \<Rightarrow> real" where
  "dot u v = sum_list (map2 (\<lambda>x y. x * y) u v)"

text \<open>\<^verbatim>\<open>linalg.norm\<close> of a vector: the Euclidean norm.\<close>

definition linalg_norm :: "vec \<Rightarrow> real" where
  "linalg_norm v = sqrt (sum_list (map (\<lambda>x. x\<^sup>2) v))"

text \<open>\<^verbatim>\<open>np.sqrt\<close>: NaN below zero (HOL's \<open>sqrt\<close> is odd there, the program's is not).\<close>

definition np_sqrt :: "real \<Rightarrow> npfloat" where
  "np_sqrt x = (if x < 0 then NaN else Finite (sqrt x))"

subsection \<open>Setting up the linear system\<close>

text \<open>
  One pass of the loop body, on the pair of arrays \<open>(A, b)\<close>:
  \<^verbatim>\<open>A[row,0:3] = -2*np.array(point)\<close> overwrites the first three entries of the row and
  keeps the rest, \<^verbatim>\<open>b[row] = -linalg.norm(point)**2\<close> overwrites one entry. The index
  \<open>row\<close> comes from \<^verbatim>\<open>enumerate\<close> over the list that gave both arrays their length, so it
  is always in range.
\<close>

fun loop_body :: "nat \<times> point \<Rightarrow> matrix \<times> vec \<Rightarrow> matrix \<times> vec" where
  "loop_body (row, point) (A, b) =
     (A[row := scale (-2) (np_array point) @ drop 3 (A ! row)],
      b[row := - (linalg_norm (np_array point))\<^sup>2])"

definition build_system :: "point list \<Rightarrow> matrix \<times> vec" where
  "build_system physical_points =
     fold loop_body (enumerate 0 physical_points)
       (np_ones (length physical_points) 4, np_zeros (length physical_points))"

subsection \<open>The least-squares solve\<close>

text \<open>
  \<^verbatim>\<open>linalg.lstsq\<close> is SciPy's routine; its code is not part of the repository. It returns
  the least-squares solution of minimum norm, together with the residues, the rank and the
  singular values, which the cell discards (\<^verbatim>\<open>res,_,_,_ = ...\<close>) and the model leaves out.
  It does not raise on a rank-deficient or an underdetermined system. The model computes
  the same vector in exact arithmetic; \<open>lstsq_error_split\<close> and \<open>lstsq_min_norm\<close> below
  show that it is the minimiser of least norm, for every array of four columns.
\<close>

text \<open>\<open>vaxpy k a v\<close> is \<open>v - k\<cdot>a\<close>.\<close>

definition vaxpy :: "real \<Rightarrow> vec \<Rightarrow> vec \<Rightarrow> vec" where
  "vaxpy k a v = map2 (\<lambda>ai vi. vi - k * ai) a v"

text \<open>
  Modelled from the spec: the solver behind \<^verbatim>\<open>linalg.lstsq\<close> is not in the repository. The
  specification asks to ``solve the overdetermined linear system \<open>A\<cdot>u \<approx> b\<close> in the
  least-squares sense (minimize \<open>\<parallel>A\<cdot>u - b\<parallel>\<^sup>2\<close>), using a numerically stable method (QR
  decomposition or SVD-based pseudoinverse)''. \<open>ls cols b\<close> orthogonalises the columns one
  after the other, as a QR decomposition does: the first column is removed from the other
  columns and from \<open>b\<close>, the rest is solved, and the first coefficient follows from the
  equation of the first column. A column that is zero once the earlier ones are removed
  gets the coefficient 0. The result \<open>x\<close> makes \<open>\<Sum>\<^sub>j x\<^sub>j\<cdot>cols\<^sub>j\<close> the closest to \<open>b\<close>.
\<close>

fun ls :: "matrix \<Rightarrow> vec \<Rightarrow> vec" where
  "ls [] b = []"
| "ls (a # as) b =
    (if dot a a = 0 then 0 # ls as b
     else let as' = map (\<lambda>c. vaxpy (dot a c / dot a a) a c) as;
              b' = vaxpy (dot a b / dot a a) a b;
              xs = ls as' b'
          in (dot a b - dot (map (dot a) as) xs) / dot a a # xs)"

text \<open>The \<open>n\<close> columns of an array given by its rows.\<close>

definition columns :: "nat \<Rightarrow> matrix \<Rightarrow> matrix" where
  "columns n A = map (\<lambda>j. map (\<lambda>r. r ! j) A) [0..<n]"

definition matvec :: "matrix \<Rightarrow> vec \<Rightarrow> vec" where
  "matvec A x = map (\<lambda>r. dot r x) A"

text \<open>The Gram matrix \<open>A\<^sup>T\<cdot>A\<close> of the columns.\<close>

definition gram :: "matrix \<Rightarrow> matrix" where
  "gram cols = map (\<lambda>c. map (dot c) cols) cols"

text \<open>
  Modelled from the spec: \<^verbatim>\<open>linalg.lstsq\<close> itself, the ``SVD-based pseudoinverse'' of the
  specification. \<open>lstsq n A b\<close> takes an array \<open>A\<close> of \<open>n\<close> columns (the list of rows does
  not record \<open>n\<close> when there is no row): a least-squares solution \<open>x0\<close> is projected on the
  row space of \<open>A\<close>, the range of the Gram matrix, which gives the solution of least norm.
  For an array without rows this is the zero vector, which is also what the library
  returns for a problem of size zero.
\<close>

definition lstsq :: "nat \<Rightarrow> matrix \<Rightarrow> vec \<Rightarrow> vec" where
  "lstsq n A b =
     (let cols = columns n A; N = gram cols; x0 = ls cols b; z = ls N x0
      in matvec N z)"

subsection \<open>The printed radius\<close>

text \<open>
  The value under the square root is taken in exact arithmetic, like the rest of the model.
  In double precision \<^verbatim>\<open>linalg.norm(res[0:3])**2 - res[3]\<close> can come out below zero where
  its exact value is zero or just above, and the cell then prints \<^verbatim>\<open>nan\<close>. The model does
  not follow the rounding: it does not say for which point clouds that happens.
\<close>

definition sphere_radius :: "vec \<Rightarrow> npfloat" where
  "sphere_radius res = np_sqrt ((linalg_norm (take 3 res))\<^sup>2 - res ! 3)"

definition fit_result :: "vec \<Rightarrow> SphereFitResult" where
  "fit_result res = \<lparr>center = take 3 res, radius = sphere_radius res\<rparr>"

subsection \<open>The whole cell\<close>

text \<open>
  From \<^verbatim>\<open>physical_points\<close> to the result. Nothing on the way checks the number of
  points, the rank of \<open>A\<close> or the sign under the square root, so every run ends in
  \<open>Inr\<close>. \<open>report_fit\<close> is the last line of the cell, from the solution vector on: it
  has no test and no \<^verbatim>\<open>raise\<close>, and a NaN from \<^verbatim>\<open>np.sqrt\<close> goes into the result like
  any number.
\<close>

definition report_fit :: "vec \<Rightarrow> fit_error + SphereFitResult" where
  "report_fit res = Inr (fit_result res)"

definition fit :: "point list \<Rightarrow> fit_error + SphereFitResult" where
  "fit physical_points =
     (let (A, b) = build_system physical_points;
          res = lstsq 4 A b
      in report_fit res)"

subsection \<open>Notions of the specification\<close>

text \<open>The residual \<open>A\<cdot>u - b\<close> and the squared error \<open>\<parallel>A\<cdot>u - b\<parallel>\<^sup>2\<close>.\<close>

definition residual :: "matrix \<Rightarrow> vec \<Rightarrow> vec \<Rightarrow> vec" where
  "residual A b u = map2 (\<lambda>r bi. dot r u - bi) A b"

definition sq_error :: "matrix \<Rightarrow> vec \<Rightarrow> vec \<Rightarrow> real" where
  "sq_error A b u = (linalg_norm (residual A b u))\<^sup>2"

text \<open>Full column rank: \<open>A\<cdot>v = 0\<close> only for \<open>v = 0\<close>.\<close>

definition full_column_rank :: "nat \<Rightarrow> matrix \<Rightarrow> bool" where
  "full_column_rank n A \<longleftrightarrow>
     (\<forall>v. length v = n \<longrightarrow> matvec A v = replicate (length A) 0 \<longrightarrow> v = replicate n 0)"

text \<open>The point \<open>p\<close> moved by \<open>t\<close>.\<close>

fun translate :: "point \<Rightarrow> point \<Rightarrow> point" where
  "translate (tx, ty, tz) (x, y, z) = (x + tx, y + ty, z + tz)"

section \<open>Properties\<close>

subsection \<open>The linear system\<close>

lemma linalg_norm_point: "(linalg_norm (np_array (x, y, z)))\<^sup>2 = x\<^sup>2 + y\<^sup>2 + z\<^sup>2"
  by (simp add: linalg_norm_def)

lemma loop_fst:
  "length A = k + length ps \<Longrightarrow> \<forall>r \<in> set A. drop 3 r = [1] \<Longrightarrow>
   fst (fold loop_body (enumerate k ps) (A, b)) =
     take k A @ map (\<lambda>(x, y, z). [- 2 * x, - 2 * y, - 2 * z, 1]) ps"
proof (induction ps arbitrary: k A b)
  case Nil
  then show ?case by simp
next
  case (Cons p ps)
  obtain x y z where p: "p = (x, y, z)" by (cases p)
  let ?r = "[- 2 * x, - 2 * y, - 2 * z, 1]"
  let ?A = "A[k := ?r]"
  let ?b = "b[k := - (linalg_norm (np_array p))\<^sup>2]"
  have k: "k < length A" using Cons.prems(1) by simp
  then have dr: "drop 3 (A ! k) = [1]" using Cons.prems(2) by simp
  have step: "loop_body (k, p) (A, b) = (?A, ?b)"
    by (simp add: p scale_def dr)
  have len: "length ?A = Suc k + length ps" using Cons.prems(1) by simp
  have rows: "\<forall>r \<in> set ?A. drop 3 r = [1]"
  proof
    fix r assume "r \<in> set ?A"
    then have "r \<in> insert ?r (set A)"
      using set_update_subset_insert [of A k ?r] by blast
    then show "drop 3 r = [1]" using Cons.prems(2) by auto
  qed
  have tk: "take (Suc k) ?A = take k A @ [?r]"
    using k by (simp add: take_Suc_conv_app_nth)
  have "fst (fold loop_body (enumerate k (p # ps)) (A, b)) =
        fst (fold loop_body (enumerate (Suc k) ps) (?A, ?b))"
    by (simp only: enumerate_simps fold_simps step o_apply)
  also have "\<dots> = take (Suc k) ?A @ map (\<lambda>(x, y, z). [- 2 * x, - 2 * y, - 2 * z, 1]) ps"
    by (rule Cons.IH [OF len rows])
  also have "\<dots> = take k A @ map (\<lambda>(x, y, z). [- 2 * x, - 2 * y, - 2 * z, 1]) (p # ps)"
    by (simp only: tk p list.map prod.case append_assoc append.simps)
  finally show ?case .
qed

lemma loop_snd:
  "length b = k + length ps \<Longrightarrow>
   snd (fold loop_body (enumerate k ps) (A, b)) =
     take k b @ map (\<lambda>(x, y, z). - (x\<^sup>2 + y\<^sup>2 + z\<^sup>2)) ps"
proof (induction ps arbitrary: k A b)
  case Nil
  then show ?case by simp
next
  case (Cons p ps)
  obtain x y z where p: "p = (x, y, z)" by (cases p)
  let ?v = "- (x\<^sup>2 + y\<^sup>2 + z\<^sup>2)"
  let ?A = "A[k := scale (-2) (np_array p) @ drop 3 (A ! k)]"
  let ?b = "b[k := ?v]"
  have k: "k < length b" using Cons.prems by simp
  have step: "loop_body (k, p) (A, b) = (?A, ?b)"
    by (simp only: p loop_body.simps linalg_norm_point)
  have len: "length ?b = Suc k + length ps" using Cons.prems by simp
  have tk: "take (Suc k) ?b = take k b @ [?v]"
    using k by (simp add: take_Suc_conv_app_nth)
  have "snd (fold loop_body (enumerate k (p # ps)) (A, b)) =
        snd (fold loop_body (enumerate (Suc k) ps) (?A, ?b))"
    by (simp only: enumerate_simps fold_simps step o_apply)
  also have "\<dots> = take (Suc k) ?b @ map (\<lambda>(x, y, z). - (x\<^sup>2 + y\<^sup>2 + z\<^sup>2)) ps"
    by (rule Cons.IH [OF len])
  also have "\<dots> = take k b @ map (\<lambda>(x, y, z). - (x\<^sup>2 + y\<^sup>2 + z\<^sup>2)) (p # ps)"
    by (simp only: tk p list.map prod.case append_assoc append.simps)
  finally show ?case .
qed

lemma build_system_eq:
  "build_system ps =
     (map (\<lambda>(x, y, z). [- 2 * x, - 2 * y, - 2 * z, 1]) ps,
      map (\<lambda>(x, y, z). - (x\<^sup>2 + y\<^sup>2 + z\<^sup>2)) ps)"
proof -
  have "\<forall>r \<in> set (np_ones (length ps) 4). drop 3 r = [1]"
    by (simp add: np_ones_def numeral_eq_Suc)
  then show ?thesis
    using loop_fst [of "np_ones (length ps) 4" 0 ps "np_zeros (length ps)"]
      loop_snd [of "np_zeros (length ps)" 0 ps "np_ones (length ps) 4"]
    by (simp add: build_system_def prod_eq_iff np_ones_def np_zeros_def)
qed

text \<open>
  Claim C1. For every point cloud the loop leaves in \<open>A\<close> exactly one row
  \<open>(-2x, -2y, -2z, 1)\<close> per input point, in the order of the points and with no other row,
  and in \<open>b\<close> the matching entries \<open>-\<parallel>p\<parallel>\<^sup>2 = -(x\<^sup>2 + y\<^sup>2 + z\<^sup>2)\<close>.
\<close>

theorem build_system_rows:
  "build_system physical_points =
     (map (\<lambda>(x, y, z). [- 2 * x, - 2 * y, - 2 * z, 1]) physical_points,
      map (\<lambda>(x, y, z). - (x\<^sup>2 + y\<^sup>2 + z\<^sup>2)) physical_points)"
  by (rule build_system_eq)

subsection \<open>The solver satisfies the normal equations\<close>

lemma dot_Nil [simp]: "dot [] v = 0" "dot u [] = 0"
  by (simp_all add: dot_def)

lemma dot_Cons [simp]: "dot (x # u) (y # v) = x * y + dot u v"
  by (simp add: dot_def)

lemma dot_sym: "dot u v = dot v u"
proof (induction u arbitrary: v)
  case Nil
  then show ?case by simp
next
  case (Cons x u)
  then show ?case by (cases v) simp_all
qed

lemma length_vaxpy [simp]: "length (vaxpy k a v) = min (length a) (length v)"
  by (simp add: vaxpy_def)

lemma vaxpy_Cons [simp]: "vaxpy k (x # a) (y # v) = (y - k * x) # vaxpy k a v"
  by (simp add: vaxpy_def)

lemma vaxpy_Nil [simp]: "vaxpy k [] v = []" "vaxpy k a [] = []"
  by (simp_all add: vaxpy_def)

lemma dot_vaxpy:
  "length c = length a \<Longrightarrow> length a = length v \<Longrightarrow>
   dot c (vaxpy k a v) = dot c v - k * dot c a"
  by (induction c a v rule: list_induct3) (simp_all add: algebra_simps)

lemma dot_vaxpy_left:
  "length c = length a \<Longrightarrow> length a = length v \<Longrightarrow>
   dot (vaxpy k a v) c = dot v c - k * dot a c"
  by (induction c a v rule: list_induct3) (simp_all add: algebra_simps)

lemma dot_self_nonneg: "0 \<le> dot a a"
  by (induction a) simp_all

lemma dot_self_zero:
  "dot a a = 0 \<Longrightarrow> dot a c = 0"
proof (induction a arbitrary: c)
  case Nil
  then show ?case by simp
next
  case (Cons x a)
  have "x * x + dot a a = 0" using Cons.prems by simp
  moreover have "0 \<le> x * x" by simp
  moreover note dot_self_nonneg [of a]
  ultimately have "x = 0" "dot a a = 0"
    by (auto simp: add_nonneg_eq_0_iff)
  then show ?case using Cons.IH by (cases c) simp_all
qed

lemma dot_map_sub:
  "dot (map (\<lambda>e. F e - k * G e) as) xs = dot (map F as) xs - k * dot (map G as) xs"
proof (induction as arbitrary: xs)
  case Nil
  then show ?case by simp
next
  case (Cons a as)
  then show ?case by (cases xs) (simp_all add: algebra_simps)
qed

lemma dot_map_zero: "dot (map (\<lambda>e. 0) as) xs = 0"
proof (induction as arbitrary: xs)
  case Nil
  then show ?case by simp
next
  case (Cons a as)
  then show ?case by (cases xs) simp_all
qed

lemma length_ls [simp]: "length (ls cols b) = length cols"
  by (induction cols b rule: ls.induct) (simp_all add: Let_def)

lemma ls_normal:
  "\<forall>c \<in> set cols. length c = length b \<Longrightarrow> c \<in> set cols \<Longrightarrow>
   dot (map (dot c) cols) (ls cols b) = dot c b"
proof (induction cols b arbitrary: c rule: ls.induct)
  case (1 b)
  then show ?case by simp
next
  case (2 a as b)
  have la: "length a = length b" and las: "\<forall>e \<in> set as. length e = length b"
    using "2.prems"(1) by simp_all
  show ?case
  proof (cases "dot a a = 0")
    case True
    have ih: "\<And>c. c \<in> set as \<Longrightarrow> dot (map (dot c) as) (ls as b) = dot c b"
      using "2.IH"(1) [OF True las] by simp
    have z: "map (dot a) as = map (\<lambda>e. 0) as"
      using dot_self_zero [OF True] by simp
    have za: "dot (map (dot a) as) (ls as b) = 0"
      by (simp only: z dot_map_zero)
    show ?thesis
    proof (cases "c = a")
      case True
      then show ?thesis
        using \<open>dot a a = 0\<close> dot_self_zero [OF \<open>dot a a = 0\<close>] by (simp add: dot_map_zero)
    next
      case False
      then have "c \<in> set as" using "2.prems"(2) by simp
      then show ?thesis using \<open>dot a a = 0\<close> ih by simp
    qed
  next
    case False
    define d where "d = dot a a"
    define as' where "as' = map (\<lambda>c. vaxpy (dot a c / dot a a) a c) as"
    define b' where "b' = vaxpy (dot a b / dot a a) a b"
    define xs where "xs = ls as' b'"
    define x1 where "x1 = (dot a b - dot (map (dot a) as) xs) / d"
    have d0: "d \<noteq> 0" using False by (simp add: d_def)
    have eq: "ls (a # as) b = x1 # xs"
      using False by (simp add: Let_def x1_def xs_def as'_def b'_def d_def)
    have lb': "length b' = length b" using la by (simp add: b'_def)
    have las': "\<forall>e \<in> set as'. length e = length b'"
      using las la lb' by (auto simp: as'_def)
    have ih: "\<And>c. c \<in> set as' \<Longrightarrow> dot (map (dot c) as') xs = dot c b'"
      using "2.IH"(2) [OF False as'_def b'_def las'] by (simp add: xs_def)
    have first: "dot (map (dot a) (a # as)) (x1 # xs) = dot a b"
      using d0 by (simp add: x1_def d_def [symmetric])
    show ?thesis
    proof (cases "c = a")
      case True
      then show ?thesis using first eq by simp
    next
      case False
      then have cin: "c \<in> set as" using "2.prems"(2) by simp
      then have lc: "length c = length b" using las by simp
      define k where "k = dot a c / d"
      define c' where "c' = vaxpy k a c"
      have c'in: "c' \<in> set as'" using cin by (auto simp: as'_def c'_def k_def d_def)
      have kd: "k * d = dot a c" using d0 by (simp add: k_def)
      have lc': "length c' = length b" using la lc by (simp add: c'_def)
      have dc': "dot c' e = dot c e - k * dot a e" if "length e = length b" for e
        unfolding c'_def using la lc that by (simp add: dot_vaxpy_left)
      have ac: "dot c a = dot a c" by (rule dot_sym)
      have c'a: "dot c' a = 0"
        using dc' [OF la] kd ac by (simp add: d_def)
      have m: "map (dot c') as' = map (\<lambda>e. dot c e - k * dot a e) as"
      proof -
        have "dot c' (vaxpy (dot a e / dot a a) a e) = dot c e - k * dot a e"
          if "e \<in> set as" for e
        proof -
          have le: "length e = length b" using that las by simp
          have "dot c' (vaxpy (dot a e / dot a a) a e) = dot c' e - (dot a e / dot a a) * dot c' a"
            using le la lc' by (simp add: dot_vaxpy)
          then show ?thesis using dc' [OF le] c'a by simp
        qed
        then show ?thesis by (simp add: as'_def)
      qed
      have "dot c' b' = dot c' b - (dot a b / dot a a) * dot c' a"
        unfolding b'_def using la lc' by (simp add: dot_vaxpy)
      then have rb: "dot c' b' = dot c b - k * dot a b"
        using dc' [of b] c'a by simp
      have e1: "dot a b = d * x1 + dot (map (dot a) as) xs"
        using d0 by (simp add: x1_def)
      have "dot (map (dot c) as) xs - k * dot (map (dot a) as) xs = dot c b - k * dot a b"
        using ih [OF c'in] unfolding m dot_map_sub rb .
      then have "dot (map (dot c) as) xs - k * dot (map (dot a) as) xs =
          dot c b - k * (d * x1 + dot (map (dot a) as) xs)"
        by (simp only: e1 [symmetric])
      then have "dot (map (dot c) as) xs = dot c b - k * (d * x1)"
        by (simp add: algebra_simps)
      then have "dot c a * x1 + dot (map (dot c) as) xs = dot c b"
        using kd ac by (simp add: mult.assoc [symmetric])
      then show ?thesis using eq by simp
    qed
  qed
qed

lemma len4: "length r = 4 \<Longrightarrow> \<exists>a b c d. r = [a, b, c, d]"
  by (auto simp: length_Suc_conv numeral_eq_Suc)

lemma linalg_norm_sq: "(linalg_norm v)\<^sup>2 = dot v v"
proof -
  have "sum_list (map (\<lambda>x. x\<^sup>2) v) = dot v v"
    by (induction v) (simp_all add: power2_eq_square)
  then show ?thesis
    using dot_self_nonneg [of v] by (simp add: linalg_norm_def)
qed

lemma gram4:
  "gram [c1, c2, c3, c4] =
     [[dot c1 c1, dot c1 c2, dot c1 c3, dot c1 c4],
      [dot c1 c2, dot c2 c2, dot c2 c3, dot c2 c4],
      [dot c1 c3, dot c2 c3, dot c3 c3, dot c3 c4],
      [dot c1 c4, dot c2 c4, dot c3 c4, dot c4 c4]]"
  by (simp add: gram_def dot_sym [of c2 c1] dot_sym [of c3 c1] dot_sym [of c4 c1]
      dot_sym [of c3 c2] dot_sym [of c4 c2] dot_sym [of c4 c3])

lemma sym4:
  assumes N: "N = [[a, b, c, d], [b, e, f, g], [c, f, h, i], [d, g, i, j]]"
    and r: "r \<in> set N" and z: "length z = 4"
  shows "dot r (matvec N z) = dot (map (dot r) N) z"
proof -
  obtain z1 z2 z3 z4 where zz: "z = [z1, z2, z3, z4]" using len4 [OF z] by blast
  from r N have "r = [a, b, c, d] \<or> r = [b, e, f, g] \<or> r = [c, f, h, i] \<or> r = [d, g, i, j]"
    by simp
  then show ?thesis
    by (elim disjE) (simp_all add: N zz matvec_def algebra_simps)
qed

lemma lstsq_normal:
  assumes cols: "cols = [c1, c2, c3, c4]"
    and len: "\<forall>c \<in> set cols. length c = length b"
    and c: "c \<in> set cols"
  shows "dot (map (dot c) cols) (matvec (gram cols) (ls (gram cols) (ls cols b))) = dot c b"
proof -
  let ?N = "gram cols"
  let ?x0 = "ls cols b"
  let ?z = "ls ?N ?x0"
  have lc: "length cols = 4" by (simp add: cols)
  have lx: "length ?x0 = 4" by (simp only: length_ls lc)
  have lN: "\<forall>r \<in> set ?N. length r = length ?x0"
    unfolding lx by (auto simp: gram_def lc)
  have rin: "map (dot c) cols \<in> set ?N" using c by (auto simp: gram_def)
  have lz: "length ?z = 4" by (simp add: gram_def lc)
  have N4: "?N = [[dot c1 c1, dot c1 c2, dot c1 c3, dot c1 c4],
      [dot c1 c2, dot c2 c2, dot c2 c3, dot c2 c4],
      [dot c1 c3, dot c2 c3, dot c3 c3, dot c3 c4],
      [dot c1 c4, dot c2 c4, dot c3 c4, dot c4 c4]]"
    unfolding cols by (rule gram4)
  have "dot (map (dot c) cols) (matvec ?N ?z) = dot (map (dot (map (dot c) cols)) ?N) ?z"
    by (rule sym4 [OF N4 rin lz])
  also have "\<dots> = dot (map (dot c) cols) ?x0"
    by (rule ls_normal [OF lN rin])
  also have "\<dots> = dot c b"
    by (rule ls_normal [OF len c])
  finally show ?thesis .
qed

subsection \<open>Rows and columns\<close>

lemma columns4:
  "columns 4 A = [map (\<lambda>r. r ! 0) A, map (\<lambda>r. r ! 1) A, map (\<lambda>r. r ! 2) A, map (\<lambda>r. r ! 3) A]"
  by (simp add: columns_def upt_conv_Cons eval_nat_numeral)

lemma length_residual [simp]: "length (residual A b u) = min (length A) (length b)"
  by (simp add: residual_def)

lemma length_matvec [simp]: "length (matvec A x) = length A"
  by (simp add: matvec_def)

lemma dot_map_residual:
  assumes "\<forall>r \<in> set A. length r = 4" and "length A = length b"
  shows "dot (map f A) (residual A b [u1, u2, u3, u4]) =
     dot [dot (map f A) (map (\<lambda>r. r ! 0) A), dot (map f A) (map (\<lambda>r. r ! 1) A),
          dot (map f A) (map (\<lambda>r. r ! 2) A), dot (map f A) (map (\<lambda>r. r ! 3) A)]
       [u1, u2, u3, u4] - dot (map f A) b"
  using assms(2,1)
proof (induction A b rule: list_induct2)
  case Nil
  then show ?case by (simp add: residual_def)
next
  case (Cons r A bi b)
  obtain r1 r2 r3 r4 where r: "r = [r1, r2, r3, r4]"
    using Cons.prems len4 [of r] by auto
  have ih: "dot (map f A) (residual A b [u1, u2, u3, u4]) =
     dot [dot (map f A) (map (\<lambda>r. r ! 0) A), dot (map f A) (map (\<lambda>r. r ! 1) A),
          dot (map f A) (map (\<lambda>r. r ! 2) A), dot (map f A) (map (\<lambda>r. r ! 3) A)]
       [u1, u2, u3, u4] - dot (map f A) b"
    using Cons.IH Cons.prems by simp
  have "dot (map f (r # A)) (residual (r # A) (bi # b) [u1, u2, u3, u4]) =
      f r * (r1 * u1 + r2 * u2 + r3 * u3 + r4 * u4 - bi) + dot (map f A) (residual A b [u1, u2, u3, u4])"
    by (simp add: residual_def r)
  then show ?case
    unfolding ih by (simp add: r algebra_simps)
qed

lemma dot_col_residual:
  assumes rows: "\<forall>r \<in> set A. length r = 4" and lb: "length A = length b"
    and lu: "length u = 4" and c: "c \<in> set (columns 4 A)"
  shows "dot c (residual A b u) = dot (map (dot c) (columns 4 A)) u - dot c b"
proof -
  obtain u1 u2 u3 u4 where u: "u = [u1, u2, u3, u4]" using len4 [OF lu] by blast
  from c have "c = map (\<lambda>r. r ! 0) A \<or> c = map (\<lambda>r. r ! 1) A \<or> c = map (\<lambda>r. r ! 2) A \<or>
      c = map (\<lambda>r. r ! 3) A"
    by (simp add: columns4)
  then show ?thesis
    unfolding u columns4
    by (elim disjE) (simp_all only: dot_map_residual [OF rows lb] list.map)
qed

lemma dot_matvec:
  assumes "length e = length A" and "\<forall>r \<in> set A. length r = 4"
  shows "dot e (matvec A [d1, d2, d3, d4]) =
     dot [dot (map (\<lambda>r. r ! 0) A) e, dot (map (\<lambda>r. r ! 1) A) e,
          dot (map (\<lambda>r. r ! 2) A) e, dot (map (\<lambda>r. r ! 3) A) e] [d1, d2, d3, d4]"
  using assms
proof (induction e A rule: list_induct2)
  case Nil
  then show ?case by (simp add: matvec_def)
next
  case (Cons x e r A)
  obtain r1 r2 r3 r4 where r: "r = [r1, r2, r3, r4]"
    using Cons.prems len4 [of r] by auto
  have ih: "dot e (matvec A [d1, d2, d3, d4]) =
     dot [dot (map (\<lambda>r. r ! 0) A) e, dot (map (\<lambda>r. r ! 1) A) e,
          dot (map (\<lambda>r. r ! 2) A) e, dot (map (\<lambda>r. r ! 3) A) e] [d1, d2, d3, d4]"
    using Cons.IH Cons.prems by simp
  have "dot (x # e) (matvec (r # A) [d1, d2, d3, d4]) =
      x * (r1 * d1 + r2 * d2 + r3 * d3 + r4 * d4) + dot e (matvec A [d1, d2, d3, d4])"
    by (simp add: matvec_def r)
  then show ?case
    unfolding ih by (simp add: r algebra_simps)
qed

lemma dot_add_self:
  "length x = length y \<Longrightarrow>
   dot (map2 (\<lambda>a b. a + b) x y) (map2 (\<lambda>a b. a + b) x y) = dot x x + 2 * dot x y + dot y y"
  by (induction x y rule: list_induct2) (simp_all add: algebra_simps)

lemma residual_shift:
  assumes "length A = length b" and "\<forall>r \<in> set A. length r = 4"
  shows "residual A b [u1 + d1, u2 + d2, u3 + d3, u4 + d4] =
     map2 (\<lambda>a b. a + b) (residual A b [u1, u2, u3, u4]) (matvec A [d1, d2, d3, d4])"
  using assms
proof (induction A b rule: list_induct2)
  case Nil
  then show ?case by (simp add: residual_def matvec_def)
next
  case (Cons r A bi b)
  obtain r1 r2 r3 r4 where r: "r = [r1, r2, r3, r4]"
    using Cons.prems len4 [of r] by auto
  have ih: "residual A b [u1 + d1, u2 + d2, u3 + d3, u4 + d4] =
     map2 (\<lambda>a b. a + b) (residual A b [u1, u2, u3, u4]) (matvec A [d1, d2, d3, d4])"
    using Cons.IH Cons.prems by simp
  have "residual (r # A) (bi # b) [u1 + d1, u2 + d2, u3 + d3, u4 + d4] =
      (dot r [u1 + d1, u2 + d2, u3 + d3, u4 + d4] - bi) #
        residual A b [u1 + d1, u2 + d2, u3 + d3, u4 + d4]"
    by (simp add: residual_def)
  moreover have "residual (r # A) (bi # b) [u1, u2, u3, u4] =
      (dot r [u1, u2, u3, u4] - bi) # residual A b [u1, u2, u3, u4]"
    by (simp add: residual_def)
  moreover have "matvec (r # A) [d1, d2, d3, d4] = dot r [d1, d2, d3, d4] # matvec A [d1, d2, d3, d4]"
    by (simp add: matvec_def)
  ultimately show ?case
    unfolding ih by (simp add: r algebra_simps)
qed

lemma sq_error_dot: "sq_error A b u = dot (residual A b u) (residual A b u)"
  by (simp add: sq_error_def linalg_norm_sq)

text \<open>The error of a shifted solution when the normal equations hold at \<open>u\<close>.\<close>

lemma sq_error_shift:
  assumes rows: "\<forall>r \<in> set A. length r = 4" and lb: "length A = length b"
    and normal: "\<forall>c \<in> set (columns 4 A). dot c (residual A b [u1, u2, u3, u4]) = 0"
  shows "sq_error A b [u1 + d1, u2 + d2, u3 + d3, u4 + d4] =
     sq_error A b [u1, u2, u3, u4] + dot (matvec A [d1, d2, d3, d4]) (matvec A [d1, d2, d3, d4])"
proof -
  let ?e = "residual A b [u1, u2, u3, u4]"
  let ?l = "matvec A [d1, d2, d3, d4]"
  have le: "length ?e = length A" using lb by simp
  have "dot ?e ?l = dot [dot (map (\<lambda>r. r ! 0) A) ?e, dot (map (\<lambda>r. r ! 1) A) ?e,
          dot (map (\<lambda>r. r ! 2) A) ?e, dot (map (\<lambda>r. r ! 3) A) ?e] [d1, d2, d3, d4]"
    by (rule dot_matvec [OF le rows])
  also have "\<dots> = 0"
    using normal by (simp add: columns4)
  finally have cross: "dot ?e ?l = 0" .
  have "length ?e = length ?l" using le by simp
  from dot_add_self [OF this] cross show ?thesis
    by (simp only: sq_error_dot residual_shift [OF lb rows])
qed

subsection \<open>The returned vector minimises the squared error\<close>

lemma length_lstsq [simp]: "length (lstsq n A b) = n"
  by (simp add: lstsq_def Let_def gram_def columns_def)

lemma lstsq_residual_normal:
  assumes rows: "\<forall>r \<in> set A. length r = 4" and lb: "length A = length b"
    and c: "c \<in> set (columns 4 A)"
  shows "dot c (residual A b (lstsq 4 A b)) = 0"
proof -
  let ?cols = "columns 4 A"
  have len: "\<forall>c \<in> set ?cols. length c = length b"
    using lb by (simp add: columns4)
  have "dot (map (dot c) ?cols) (lstsq 4 A b) = dot c b"
    unfolding lstsq_def Let_def by (rule lstsq_normal [OF columns4 len c])
  then show ?thesis
    using dot_col_residual [OF rows lb length_lstsq c] by simp
qed

lemma vec4_diff:
  fixes u v :: vec
  assumes "length u = 4" and "length v = 4"
  obtains u1 u2 u3 u4 d1 d2 d3 d4 where "u = [u1, u2, u3, u4]"
    and "v = [u1 + d1, u2 + d2, u3 + d3, u4 + d4]"
    and "map2 (\<lambda>a b. a - b) v u = [d1, d2, d3, d4]"
proof -
  obtain u1 u2 u3 u4 where u: "u = [u1, u2, u3, u4]" using len4 [OF assms(1)] by blast
  obtain v1 v2 v3 v4 where v: "v = [v1, v2, v3, v4]" using len4 [OF assms(2)] by blast
  show thesis
    by (rule that [of u1 u2 u3 u4 "v1 - u1" "v2 - u2" "v3 - u3" "v4 - u4"]) (simp_all add: u v)
qed

text \<open>
  The error at any \<open>v\<close> is the error at the returned solution plus \<open>\<parallel>A\<cdot>(v - u)\<parallel>\<^sup>2\<close>:
  the returned vector minimises the error, whatever the rank.
\<close>

lemma lstsq_error_split:
  assumes rows: "\<forall>r \<in> set A. length r = 4" and lb: "length A = length b"
    and lv: "length v = 4"
  shows "sq_error A b v = sq_error A b (lstsq 4 A b) +
     dot (matvec A (map2 (\<lambda>a b. a - b) v (lstsq 4 A b)))
         (matvec A (map2 (\<lambda>a b. a - b) v (lstsq 4 A b)))"
proof -
  obtain u1 u2 u3 u4 d1 d2 d3 d4 where u: "lstsq 4 A b = [u1, u2, u3, u4]"
    and v: "v = [u1 + d1, u2 + d2, u3 + d3, u4 + d4]"
    and d: "map2 (\<lambda>a b. a - b) v (lstsq 4 A b) = [d1, d2, d3, d4]"
    using vec4_diff [OF length_lstsq lv] by metis
  have normal: "\<forall>c \<in> set (columns 4 A). dot c (residual A b [u1, u2, u3, u4]) = 0"
    using lstsq_residual_normal [OF rows lb] by (simp add: u)
  show ?thesis
    unfolding d unfolding u v by (rule sq_error_shift [OF rows lb normal])
qed

lemma dot_self_zero_replicate: "dot x x = 0 \<Longrightarrow> x = replicate (length x) 0"
proof (induction x)
  case Nil
  then show ?case by simp
next
  case (Cons a x)
  have "a * a + dot x x = 0" using Cons.prems by simp
  moreover have "0 \<le> a * a" by simp
  moreover note dot_self_nonneg [of x]
  ultimately have "a = 0" "dot x x = 0"
    by (auto simp: add_nonneg_eq_0_iff)
  then show ?case using Cons.IH by simp
qed

lemma full_rank_pos:
  assumes fr: "full_column_rank 4 A" and ld: "length d = 4" and d: "d \<noteq> replicate 4 0"
  shows "0 < dot (matvec A d) (matvec A d)"
proof (rule ccontr)
  assume "\<not> 0 < dot (matvec A d) (matvec A d)"
  then have "dot (matvec A d) (matvec A d) = 0"
    using dot_self_nonneg [of "matvec A d"] by simp
  then have "matvec A d = replicate (length A) 0"
    using dot_self_zero_replicate [of "matvec A d"] by simp
  then show False using fr ld d by (simp add: full_column_rank_def)
qed

lemma diff_nonzero:
  fixes u v :: vec
  assumes "length u = 4" and "length v = 4" and "v \<noteq> u"
  shows "map2 (\<lambda>a b. a - b) v u \<noteq> replicate 4 0"
proof -
  obtain u1 u2 u3 u4 where u: "u = [u1, u2, u3, u4]" using len4 [OF assms(1)] by blast
  obtain v1 v2 v3 v4 where v: "v = [v1, v2, v3, v4]" using len4 [OF assms(2)] by blast
  show ?thesis using assms(3) by (auto simp: u v eval_nat_numeral)
qed

lemma lstsq_strict:
  assumes rows: "\<forall>r \<in> set A. length r = 4" and lb: "length A = length b"
    and fr: "full_column_rank 4 A" and lv: "length v = 4" and ne: "v \<noteq> lstsq 4 A b"
  shows "sq_error A b (lstsq 4 A b) < sq_error A b v"
proof -
  have "0 < dot (matvec A (map2 (\<lambda>a b. a - b) v (lstsq 4 A b)))
         (matvec A (map2 (\<lambda>a b. a - b) v (lstsq 4 A b)))"
    by (rule full_rank_pos [OF fr _ diff_nonzero [OF length_lstsq lv ne]]) (simp add: lv)
  then show ?thesis
    using lstsq_error_split [OF rows lb lv] by simp
qed

text \<open>With full column rank the normal equations have one solution only.\<close>

lemma lstsq_unique:
  assumes rows: "\<forall>r \<in> set A. length r = 4" and lb: "length A = length b"
    and fr: "full_column_rank 4 A" and lv: "length v = 4"
    and normal: "\<forall>c \<in> set (columns 4 A). dot c (residual A b v) = 0"
  shows "lstsq 4 A b = v"
proof (rule ccontr)
  assume ne: "lstsq 4 A b \<noteq> v"
  obtain v1 v2 v3 v4 d1 d2 d3 d4 where v: "v = [v1, v2, v3, v4]"
    and u: "lstsq 4 A b = [v1 + d1, v2 + d2, v3 + d3, v4 + d4]"
    using vec4_diff [OF lv length_lstsq] by metis
  have "sq_error A b (lstsq 4 A b) = sq_error A b v +
      dot (matvec A [d1, d2, d3, d4]) (matvec A [d1, d2, d3, d4])"
    unfolding u v by (rule sq_error_shift [OF rows lb normal [unfolded v]])
  then have "sq_error A b v \<le> sq_error A b (lstsq 4 A b)"
    using dot_self_nonneg [of "matvec A [d1, d2, d3, d4]"] by simp
  moreover have "sq_error A b (lstsq 4 A b) < sq_error A b v"
    using ne by (intro lstsq_strict [OF rows lb fr lv]) simp
  ultimately show False by simp
qed

lemma dot_replicate_zero: "dot c (replicate n 0) = 0"
proof (induction c arbitrary: n)
  case Nil
  then show ?case by simp
next
  case (Cons x c)
  then show ?case by (cases n) simp_all
qed

text \<open>
  Among the vectors that minimise the squared error, the returned one has the least norm:
  \<open>lstsq\<close> is the solution that the pseudoinverse gives, also when the rank is deficient.
\<close>

lemma lstsq_min_norm:
  assumes rows: "\<forall>r \<in> set A. length r = 4" and lb: "length A = length b"
    and lv: "length v = 4" and le: "sq_error A b v \<le> sq_error A b (lstsq 4 A b)"
  shows "dot (lstsq 4 A b) (lstsq 4 A b) \<le> dot v v"
proof -
  obtain u1 u2 u3 u4 d1 d2 d3 d4 where u: "lstsq 4 A b = [u1, u2, u3, u4]"
    and v: "v = [u1 + d1, u2 + d2, u3 + d3, u4 + d4]"
    and d: "map2 (\<lambda>a b. a - b) v (lstsq 4 A b) = [d1, d2, d3, d4]"
    using vec4_diff [OF length_lstsq lv] by metis
  let ?Ad = "matvec A [d1, d2, d3, d4]"
  have "dot ?Ad ?Ad \<le> 0"
    using lstsq_error_split [OF rows lb lv] le by (simp add: d)
  then have "dot ?Ad ?Ad = 0"
    using dot_self_nonneg [of ?Ad] by simp
  then have Ad: "?Ad = replicate (length A) 0"
    using dot_self_zero_replicate [of ?Ad] by simp
  define c1 where "c1 = map (\<lambda>r. r ! 0) A"
  define c2 where "c2 = map (\<lambda>r. r ! 1) A"
  define c3 where "c3 = map (\<lambda>r. r ! 2) A"
  define c4 where "c4 = map (\<lambda>r. r ! 3) A"
  have cols: "columns 4 A = [c1, c2, c3, c4]"
    by (simp only: columns4 c1_def c2_def c3_def c4_def)
  have E: "dot [dot c1 c, dot c2 c, dot c3 c, dot c4 c] [d1, d2, d3, d4] = 0"
    if "length c = length A" for c
    using dot_matvec [OF that rows, of d1 d2 d3 d4]
    by (simp only: Ad dot_replicate_zero c1_def c2_def c3_def c4_def)
  define g11 where "g11 = dot c1 c1"
  define g12 where "g12 = dot c1 c2"
  define g13 where "g13 = dot c1 c3"
  define g14 where "g14 = dot c1 c4"
  define g22 where "g22 = dot c2 c2"
  define g23 where "g23 = dot c2 c3"
  define g24 where "g24 = dot c2 c4"
  define g33 where "g33 = dot c3 c3"
  define g34 where "g34 = dot c3 c4"
  define g44 where "g44 = dot c4 c4"
  note gs = g11_def g12_def g13_def g14_def g22_def g23_def g24_def g33_def g34_def g44_def
  have s: "dot c2 c1 = g12" "dot c3 c1 = g13" "dot c4 c1 = g14" "dot c3 c2 = g23"
    "dot c4 c2 = g24" "dot c4 c3 = g34"
    unfolding gs by (rule dot_sym)+
  have l: "length c1 = length A" "length c2 = length A" "length c3 = length A"
    "length c4 = length A"
    by (simp_all add: c1_def c2_def c3_def c4_def)
  have E1: "g11 * d1 + g12 * d2 + g13 * d3 + g14 * d4 = 0"
    using E [OF l(1)] by (simp add: s gs [symmetric])
  have E2: "g12 * d1 + g22 * d2 + g23 * d3 + g24 * d4 = 0"
    using E [OF l(2)] by (simp add: s gs [symmetric])
  have E3: "g13 * d1 + g23 * d2 + g33 * d3 + g34 * d4 = 0"
    using E [OF l(3)] by (simp add: s gs [symmetric])
  have E4: "g14 * d1 + g24 * d2 + g34 * d3 + g44 * d4 = 0"
    using E [OF l(4)] by (simp add: s gs [symmetric])
  have lz: "length (ls (gram (columns 4 A)) (ls (columns 4 A) b)) = 4"
    by (simp add: gram_def columns_def)
  obtain z1 z2 z3 z4 where z: "ls (gram (columns 4 A)) (ls (columns 4 A) b) = [z1, z2, z3, z4]"
    using len4 [OF lz] by blast
  have "lstsq 4 A b = matvec (gram [c1, c2, c3, c4]) [z1, z2, z3, z4]"
    using z by (simp only: lstsq_def Let_def cols)
  then have "[u1, u2, u3, u4] =
      [g11 * z1 + g12 * z2 + g13 * z3 + g14 * z4, g12 * z1 + g22 * z2 + g23 * z3 + g24 * z4,
       g13 * z1 + g23 * z2 + g33 * z3 + g34 * z4, g14 * z1 + g24 * z2 + g34 * z3 + g44 * z4]"
    unfolding u gram4 gs [symmetric] by (simp add: matvec_def)
  then have "u1 * d1 + u2 * d2 + u3 * d3 + u4 * d4 =
      z1 * (g11 * d1 + g12 * d2 + g13 * d3 + g14 * d4) +
      z2 * (g12 * d1 + g22 * d2 + g23 * d3 + g24 * d4) +
      z3 * (g13 * d1 + g23 * d2 + g33 * d3 + g34 * d4) +
      z4 * (g14 * d1 + g24 * d2 + g34 * d3 + g44 * d4)"
    by (simp add: algebra_simps)
  then have ud: "u1 * d1 + u2 * d2 + u3 * d3 + u4 * d4 = 0"
    by (simp add: E1 E2 E3 E4)
  have "dot v v = dot [u1, u2, u3, u4] [u1, u2, u3, u4] +
      2 * (u1 * d1 + u2 * d2 + u3 * d3 + u4 * d4) + dot [d1, d2, d3, d4] [d1, d2, d3, d4]"
    by (simp add: v algebra_simps)
  then have "dot v v = dot [u1, u2, u3, u4] [u1, u2, u3, u4] + dot [d1, d2, d3, d4] [d1, d2, d3, d4]"
    by (simp add: ud)
  then show ?thesis
    using dot_self_nonneg [of "[d1, d2, d3, d4]"] unfolding u by linarith
qed

subsection \<open>Centre and radius from the solution\<close>

lemma fit_result_eq:
  "fit_result [cx, cy, cz, k] =
     \<lparr>center = [cx, cy, cz], radius = np_sqrt (cx\<^sup>2 + cy\<^sup>2 + cz\<^sup>2 - k)\<rparr>"
  by (simp add: fit_result_def sphere_radius_def linalg_norm_def add.assoc)

lemma fit_eq:
  "fit ps = Inr (fit_result (lstsq 4 (fst (build_system ps)) (snd (build_system ps))))"
  by (simp add: fit_def report_fit_def Let_def split_beta)

subsection \<open>The four points of the unit sphere\<close>

lemma unit_system:
  "build_system [(1, 0, 0), (- 1, 0, 0), (0, 1, 0), (0, 0, 1)] =
     ([[- 2, 0, 0, 1], [2, 0, 0, 1], [0, - 2, 0, 1], [0, 0, - 2, 1]], [- 1, - 1, - 1, - 1])"
  by (simp add: build_system_eq)

lemma unit_lstsq:
  "lstsq 4 [[- 2, 0, 0, 1], [2, 0, 0, 1], [0, - 2, 0, 1], [0, 0, - 2, 1]] [- 1, - 1, - 1, - 1] =
     [0, 0, 0, - 1]"
proof -
  let ?cols = "[[- 2, 2, 0, 0], [0, 0, - 2, 0], [0, 0, 0, - 2], [1, 1, 1, 1::real]]"
  let ?N = "[[8, 0, 0, 0], [0, 4, 0, - 2], [0, 0, 4, - 2], [0, - 2, - 2, 4::real]]"
  have c: "columns 4 [[- 2, 0, 0, 1], [2, 0, 0, 1], [0, - 2, 0, 1], [0, 0, - 2, 1::real]] = ?cols"
    by (simp add: columns_def upt_conv_Cons)
  have x0: "ls ?cols [- 1, - 1, - 1, - 1] = [0, 0, 0, - 1]"
    by (simp add: dot_def vaxpy_def)
  have N: "gram ?cols = ?N"
    by (simp add: gram_def dot_def)
  have z: "ls ?N [0, 0, 0, - 1] = [0, - 1 / 4, - 1 / 4, - 1 / 2]"
    by (simp add: dot_def vaxpy_def)
  have "matvec ?N [0, - 1 / 4, - 1 / 4, - 1 / 2] = [0, 0, 0, - 1]"
    by (simp add: matvec_def dot_def)
  then show ?thesis
    by (simp only: lstsq_def Let_def c x0 N z)
qed

text \<open>
  Claim C4. For the four points \<open>(1,0,0), (-1,0,0), (0,1,0), (0,0,1)\<close> the fit gives the
  centre \<open>(0,0,0)\<close> and the radius 1, exactly.
\<close>

theorem fit_unit_sphere:
  "fit [(1, 0, 0), (- 1, 0, 0), (0, 1, 0), (0, 0, 1)] =
     Inr \<lparr>center = [0, 0, 0], radius = Finite 1\<rparr>"
  by (simp add: fit_eq unit_system unit_lstsq fit_result_eq np_sqrt_def)

text \<open>The four points \<open>(3,2,3), (-1,2,3), (1,4,3), (1,2,5)\<close> of the sphere of radius 2 about \<open>(1,2,3)\<close>.\<close>

lemma shifted_system:
  "build_system [(3, 2, 3), (- 1, 2, 3), (1, 4, 3), (1, 2, 5)] =
     ([[- 6, - 4, - 6, 1], [2, - 4, - 6, 1], [- 2, - 8, - 6, 1], [- 2, - 4, - 10, 1]],
      [- 22, - 14, - 26, - 30])"
  by (simp add: build_system_eq)

lemma shifted_lstsq:
  "lstsq 4 [[- 6, - 4, - 6, 1], [2, - 4, - 6, 1], [- 2, - 8, - 6, 1], [- 2, - 4, - 10, 1]]
     [- 22, - 14, - 26, - 30] = [1, 2, 3, 10]"
proof -
  let ?cols = "[[- 6, 2, - 2, - 2], [- 4, - 4, - 8, - 4], [- 6, - 6, - 6, - 10], [1, 1, 1, 1::real]]"
  let ?N = "[[48, 40, 56, - 8], [40, 112, 136, - 20], [56, 136, 208, - 28], [- 8, - 20, - 28, 4::real]]"
  have c: "columns 4 [[- 6, - 4, - 6, 1], [2, - 4, - 6, 1], [- 2, - 8, - 6, 1],
      [- 2, - 4, - 10, 1::real]] = ?cols"
    by (simp add: columns_def upt_conv_Cons)
  have x0: "ls ?cols [- 22, - 14, - 26, - 30] = [1, 2, 3, 10]"
    by (simp add: dot_def vaxpy_def)
  have N: "gram ?cols = ?N"
    by (simp add: gram_def dot_def)
  have z: "ls ?N [1, 2, 3, 10] = [21 / 32, 229 / 32, 271 / 32, 791 / 8]"
    by (simp add: dot_def vaxpy_def)
  have "matvec ?N [21 / 32, 229 / 32, 271 / 32, 791 / 8] = [1, 2, 3, 10]"
    by (simp add: matvec_def dot_def)
  then show ?thesis
    by (simp only: lstsq_def Let_def c x0 N z)
qed

text \<open>
  Claim C3. When the solve returns \<open>u = (cx, cy, cz, k)\<close>, the centre of the fit is
  \<open>(cx, cy, cz)\<close>, the slice \<^verbatim>\<open>res[0:3]\<close> whose norm enters the radius, and the radius is
  the square root of \<open>\<parallel>(cx, cy, cz)\<parallel>\<^sup>2 - k\<close>; below zero \<^verbatim>\<open>np.sqrt\<close> gives NaN. The cell
  prints the radius only.
\<close>

theorem fit_center_radius:
  "lstsq 4 (fst (build_system ps)) (snd (build_system ps)) = [cx, cy, cz, k] \<Longrightarrow>
   fit ps = Inr \<lparr>center = [cx, cy, cz],
     radius = (if cx\<^sup>2 + cy\<^sup>2 + cz\<^sup>2 - k < 0 then NaN
               else Finite (sqrt (cx\<^sup>2 + cy\<^sup>2 + cz\<^sup>2 - k)))\<rparr>"
  by (simp add: fit_eq fit_result_eq np_sqrt_def)

theorem fit_center_radius_witness:
  "lstsq 4 (fst (build_system [(3, 2, 3), (- 1, 2, 3), (1, 4, 3), (1, 2, 5)]))
       (snd (build_system [(3, 2, 3), (- 1, 2, 3), (1, 4, 3), (1, 2, 5)])) = [1, 2, 3, 10] \<and>
   fit [(3, 2, 3), (- 1, 2, 3), (1, 4, 3), (1, 2, 5)] =
     Inr \<lparr>center = [1, 2, 3], radius = Finite 2\<rparr>"
proof -
  have h: "lstsq 4 (fst (build_system [(3, 2, 3), (- 1, 2, 3), (1, 4, 3), (1, 2, 5)]))
       (snd (build_system [(3, 2, 3), (- 1, 2, 3), (1, 4, 3), (1, 2, 5)])) = [1, 2, 3, 10]"
    by (simp only: shifted_system fst_conv snd_conv shifted_lstsq)
  have r: "(1::real)\<^sup>2 + 2\<^sup>2 + 3\<^sup>2 - 10 = 4" by simp
  show ?thesis
    using h fit_center_radius [OF h] by (simp only: r) simp
qed

subsection \<open>The fit minimises the squared error\<close>

lemma system_shape:
  assumes "build_system ps = (A, b)"
  shows "\<forall>r \<in> set A. length r = 4" and "length A = length b" and "length A = length ps"
  using assms by (auto simp: build_system_eq)

text \<open>
  Claim C2. For a point cloud of at least four points whose matrix \<open>A\<close> has full column
  rank, the vector \<open>u = (cx, cy, cz, k)\<close> from which the fit takes centre and radius is the
  unique minimiser of \<open>\<parallel>A\<cdot>u - b\<parallel>\<^sup>2\<close>: every other vector of four entries has a strictly larger
  squared error. This is the linear (algebraic) residual, not the distance to the sphere.
\<close>

theorem fit_least_squares:
  assumes "4 \<le> length ps" and "build_system ps = (A, b)" and "full_column_rank 4 A"
  shows "fit ps = Inr (fit_result (lstsq 4 A b)) \<and> length (lstsq 4 A b) = 4 \<and>
    (\<forall>v. length v = 4 \<and> v \<noteq> lstsq 4 A b \<longrightarrow> sq_error A b (lstsq 4 A b) < sq_error A b v)"
proof (intro conjI allI impI)
  show "fit ps = Inr (fit_result (lstsq 4 A b))"
    using assms(2) by (simp add: fit_eq)
  show "length (lstsq 4 A b) = 4" by simp
next
  fix v :: vec
  assume v: "length v = 4 \<and> v \<noteq> lstsq 4 A b"
  show "sq_error A b (lstsq 4 A b) < sq_error A b v"
    using lstsq_strict [OF system_shape(1,2) [OF assms(2)] assms(3)] v by blast
qed

lemma unit_full_rank:
  "full_column_rank 4 [[- 2, 0, 0, 1], [2, 0, 0, 1], [0, - 2, 0, 1], [0, 0, - 2, 1]]"
  unfolding full_column_rank_def
proof (intro allI impI)
  fix v :: vec
  assume lv: "length v = 4"
    and z: "matvec [[- 2, 0, 0, 1], [2, 0, 0, 1], [0, - 2, 0, 1], [0, 0, - 2, 1]] v =
      replicate (length [[- 2, 0, 0, 1], [2, 0, 0, 1], [0, - 2, 0, 1], [0, 0, - 2, 1::real]]) 0"
  obtain a b c d where v: "v = [a, b, c, d]" using len4 [OF lv] by blast
  from z have "- 2 * a + d = 0" "2 * a + d = 0" "- 2 * b + d = 0" "- 2 * c + d = 0"
    by (simp_all add: v matvec_def eval_nat_numeral)
  then have "a = 0 \<and> b = 0 \<and> c = 0 \<and> d = 0" by auto
  then show "v = replicate 4 0" by (simp add: v eval_nat_numeral)
qed

theorem fit_least_squares_witness:
  "4 \<le> length ([(1, 0, 0), (- 1, 0, 0), (0, 1, 0), (0, 0, 1)] :: point list) \<and>
   build_system [(1, 0, 0), (- 1, 0, 0), (0, 1, 0), (0, 0, 1)] =
     ([[- 2, 0, 0, 1], [2, 0, 0, 1], [0, - 2, 0, 1], [0, 0, - 2, 1]], [- 1, - 1, - 1, - 1]) \<and>
   full_column_rank 4 [[- 2, 0, 0, 1], [2, 0, 0, 1], [0, - 2, 0, 1], [0, 0, - 2, 1]] \<and>
   fit [(1, 0, 0), (- 1, 0, 0), (0, 1, 0), (0, 0, 1)] = Inr (fit_result [0, 0, 0, - 1]) \<and>
   sq_error [[- 2, 0, 0, 1], [2, 0, 0, 1], [0, - 2, 0, 1], [0, 0, - 2, 1]] [- 1, - 1, - 1, - 1]
       [0, 0, 0, - 1] <
   sq_error [[- 2, 0, 0, 1], [2, 0, 0, 1], [0, - 2, 0, 1], [0, 0, - 2, 1]] [- 1, - 1, - 1, - 1]
       [1, 0, 0, 0]"
proof -
  have len: "4 \<le> length ([(1, 0, 0), (- 1, 0, 0), (0, 1, 0), (0, 0, 1)] :: point list)" by simp
  have ne: "length [1, 0, 0, 0::real] = 4 \<and> [1, 0, 0, 0] \<noteq> [0, 0, 0, - 1::real]" by simp
  show ?thesis
    using fit_least_squares [OF len unit_system unit_full_rank] len unit_system unit_full_rank ne
    unfolding unit_lstsq by blast
qed

subsection \<open>The radicand in exact arithmetic\<close>

text \<open>
  In exact arithmetic the value under the square root is the mean squared distance of the
  points from the fitted centre, hence not negative. This is a fact about the real-valued
  model only. The cell computes in double precision, where rounding in the solve and in
  \<^verbatim>\<open>linalg.norm(res[0:3])**2 - res[3]\<close> can make the computed value negative (at
  \<^verbatim>\<open>res = [1, 1, 1, 3]\<close> the exact value is 0 and the computed one is \<open>-4.4e-16\<close>).
\<close>

lemma lstsq_empty: "lstsq 4 [] [] = [0, 0, 0, 0]"
proof -
  have c: "columns 4 [] = [[], [], [], []]"
    by (simp add: columns_def upt_conv_Cons)
  have x0: "ls [[], [], [], []] [] = [0, 0, 0, 0]"
    by simp
  have N: "gram [[], [], [], []] = [[0, 0, 0, 0], [0, 0, 0, 0], [0, 0, 0, 0], [0, 0, 0, 0]]"
    by (simp add: gram_def)
  have z: "ls [[0, 0, 0, 0], [0, 0, 0, 0], [0, 0, 0, 0], [0, 0, 0, 0]] [0, 0, 0, 0] = [0, 0, 0, 0]"
    by simp
  have "matvec [[0, 0, 0, 0], [0, 0, 0, 0], [0, 0, 0, 0], [0, 0, 0, 0]] [0, 0, 0, 0] = [0, 0, 0, 0]"
    by (simp add: matvec_def)
  then show ?thesis
    by (simp only: lstsq_def Let_def c x0 N z)
qed

text \<open>The residual of the sphere system at a point: \<open>\<parallel>p - c\<parallel>\<^sup>2 - (\<parallel>c\<parallel>\<^sup>2 - k)\<close>.\<close>

lemma sphere_residual:
  "residual (map (\<lambda>(x, y, z). [- 2 * x, - 2 * y, - 2 * z, 1]) ps)
       (map (\<lambda>(x, y, z). - (x\<^sup>2 + y\<^sup>2 + z\<^sup>2)) ps) [cx, cy, cz, k] =
     map (\<lambda>(x, y, z). (x - cx)\<^sup>2 + (y - cy)\<^sup>2 + (z - cz)\<^sup>2 - (cx\<^sup>2 + cy\<^sup>2 + cz\<^sup>2 - k)) ps"
  by (induction ps) (auto simp: residual_def power2_eq_square algebra_simps)

lemma sum_list_shifted:
  "sum_list (map (\<lambda>p. f p - c) ps) = sum_list (map f ps) - real (length ps) * c"
  by (induction ps) (simp_all add: algebra_simps)

lemma dot_ones: "dot (map (\<lambda>p. 1) ps) (map g ps) = sum_list (map g ps)"
  by (induction ps) simp_all

text \<open>
  The equation of the column of ones: the radicand is the mean squared distance of the
  points from the centre.
\<close>

lemma radicand_mean:
  assumes "lstsq 4 (fst (build_system ps)) (snd (build_system ps)) = [cx, cy, cz, k]"
  shows "real (length ps) * (cx\<^sup>2 + cy\<^sup>2 + cz\<^sup>2 - k) =
     sum_list (map (\<lambda>(x, y, z). (x - cx)\<^sup>2 + (y - cy)\<^sup>2 + (z - cz)\<^sup>2) ps)"
proof -
  let ?A = "map (\<lambda>(x, y, z). [- 2 * x, - 2 * y, - 2 * z, 1]) ps"
  let ?b = "map (\<lambda>(x, y, z). - (x\<^sup>2 + y\<^sup>2 + z\<^sup>2)) ps"
  have sys: "build_system ps = (?A, ?b)" by (rule build_system_eq)
  have u: "lstsq 4 ?A ?b = [cx, cy, cz, k]" using assms by (simp add: sys)
  have ones: "map (\<lambda>r. r ! 3) ?A = map (\<lambda>p. 1) ps"
    by (simp add: split_beta eval_nat_numeral)
  have "map (\<lambda>r. r ! 3) ?A \<in> set (columns 4 ?A)"
    unfolding columns4 by simp
  then have "dot (map (\<lambda>r. r ! 3) ?A) (residual ?A ?b (lstsq 4 ?A ?b)) = 0"
    by (rule lstsq_residual_normal [OF system_shape(1,2) [OF sys]])
  then have "sum_list (map (\<lambda>(x, y, z). (x - cx)\<^sup>2 + (y - cy)\<^sup>2 + (z - cz)\<^sup>2 -
      (cx\<^sup>2 + cy\<^sup>2 + cz\<^sup>2 - k)) ps) = 0"
    by (simp only: u sphere_residual ones dot_ones)
  moreover have "map (\<lambda>(x, y, z). (x - cx)\<^sup>2 + (y - cy)\<^sup>2 + (z - cz)\<^sup>2 -
      (cx\<^sup>2 + cy\<^sup>2 + cz\<^sup>2 - k)) ps =
      map (\<lambda>p. (case p of (x, y, z) \<Rightarrow> (x - cx)\<^sup>2 + (y - cy)\<^sup>2 + (z - cz)\<^sup>2) -
      (cx\<^sup>2 + cy\<^sup>2 + cz\<^sup>2 - k)) ps"
    by (simp add: split_beta)
  ultimately have "sum_list (map (\<lambda>p. (case p of (x, y, z) \<Rightarrow>
      (x - cx)\<^sup>2 + (y - cy)\<^sup>2 + (z - cz)\<^sup>2) - (cx\<^sup>2 + cy\<^sup>2 + cz\<^sup>2 - k)) ps) = 0"
    by (simp only:)
  then have "sum_list (map (\<lambda>(x, y, z). (x - cx)\<^sup>2 + (y - cy)\<^sup>2 + (z - cz)\<^sup>2) ps) -
      real (length ps) * (cx\<^sup>2 + cy\<^sup>2 + cz\<^sup>2 - k) = 0"
    by (simp only: sum_list_shifted)
  then show ?thesis by simp
qed

lemma radicand_nonneg:
  assumes "lstsq 4 (fst (build_system ps)) (snd (build_system ps)) = [cx, cy, cz, k]"
  shows "0 \<le> cx\<^sup>2 + cy\<^sup>2 + cz\<^sup>2 - k"
proof (cases ps)
  case Nil
  then have "[cx, cy, cz, k] = [0, 0, 0, 0]"
    using assms lstsq_empty by (simp add: build_system_eq)
  then show ?thesis by simp
next
  case (Cons p ps')
  have "0 \<le> sum_list (map (\<lambda>(x, y, z). (x - cx)\<^sup>2 + (y - cy)\<^sup>2 + (z - cz)\<^sup>2) ps)"
    by (rule sum_list_nonneg) auto
  then have "0 \<le> real (length ps) * (cx\<^sup>2 + cy\<^sup>2 + cz\<^sup>2 - k)"
    using radicand_mean [OF assms] by simp
  moreover have "0 < real (length ps)" using Cons by simp
  ultimately show ?thesis by (simp add: zero_le_mult_iff)
qed

subsection \<open>Translating the point cloud\<close>

lemma translate_conv:
  "translate (tx, ty, tz) p = (fst p + tx, fst (snd p) + ty, snd (snd p) + tz)"
  by (cases p) simp

lemma dot_map_add:
  "dot (map (\<lambda>p. f p + k * g p) ps) e = dot (map f ps) e + k * dot (map g ps) e"
proof (induction ps arbitrary: e)
  case Nil
  then show ?case by simp
next
  case (Cons p ps)
  then show ?case by (cases e) (simp_all add: algebra_simps)
qed

lemma sphere_columns:
  "columns 4 (map (\<lambda>(x, y, z). [- 2 * x, - 2 * y, - 2 * z, 1]) ps) =
     [map (\<lambda>(x, y, z). - 2 * x) ps, map (\<lambda>(x, y, z). - 2 * y) ps,
      map (\<lambda>(x, y, z). - 2 * z) ps, map (\<lambda>p. 1) ps]"
  unfolding columns4 by (simp add: split_beta eval_nat_numeral)

lemma translated_columns:
  "columns 4 (map (\<lambda>(x, y, z). [- 2 * x, - 2 * y, - 2 * z, 1]) (map (translate (tx, ty, tz)) ps)) =
     [map (\<lambda>p. (case p of (x, y, z) \<Rightarrow> - 2 * x) + (- 2 * tx) * 1) ps,
      map (\<lambda>p. (case p of (x, y, z) \<Rightarrow> - 2 * y) + (- 2 * ty) * 1) ps,
      map (\<lambda>p. (case p of (x, y, z) \<Rightarrow> - 2 * z) + (- 2 * tz) * 1) ps,
      map (\<lambda>p. 1) ps]"
  unfolding columns4 by (simp add: split_beta eval_nat_numeral translate_conv)

lemma translated_residual:
  "residual (map (\<lambda>(x, y, z). [- 2 * x, - 2 * y, - 2 * z, 1]) (map (translate (tx, ty, tz)) ps))
       (map (\<lambda>(x, y, z). - (x\<^sup>2 + y\<^sup>2 + z\<^sup>2)) (map (translate (tx, ty, tz)) ps))
       [cx + tx, cy + ty, cz + tz, k + 2 * (cx * tx + cy * ty + cz * tz) + (tx\<^sup>2 + ty\<^sup>2 + tz\<^sup>2)] =
   residual (map (\<lambda>(x, y, z). [- 2 * x, - 2 * y, - 2 * z, 1]) ps)
       (map (\<lambda>(x, y, z). - (x\<^sup>2 + y\<^sup>2 + z\<^sup>2)) ps) [cx, cy, cz, k]"
  by (induction ps) (auto simp: residual_def power2_eq_square algebra_simps)

lemma translated_matvec:
  "matvec (map (\<lambda>(x, y, z). [- 2 * x, - 2 * y, - 2 * z, 1]) (map (translate (tx, ty, tz)) ps))
       [w1, w2, w3, w4] =
   matvec (map (\<lambda>(x, y, z). [- 2 * x, - 2 * y, - 2 * z, 1]) ps)
       [w1, w2, w3, w4 - 2 * tx * w1 - 2 * ty * w2 - 2 * tz * w3]"
  by (induction ps) (auto simp: matvec_def algebra_simps)

lemma translated_full_rank:
  assumes "full_column_rank 4 (map (\<lambda>(x, y, z). [- 2 * x, - 2 * y, - 2 * z, 1]) ps)"
  shows "full_column_rank 4
    (map (\<lambda>(x, y, z). [- 2 * x, - 2 * y, - 2 * z, 1]) (map (translate (tx, ty, tz)) ps))"
  unfolding full_column_rank_def
proof (intro allI impI)
  fix w :: vec
  let ?A = "map (\<lambda>(x, y, z). [- 2 * x, - 2 * y, - 2 * z, 1]) ps"
  let ?A' = "map (\<lambda>(x, y, z). [- 2 * x, - 2 * y, - 2 * z, 1]) (map (translate (tx, ty, tz)) ps)"
  assume lw: "length w = 4" and z: "matvec ?A' w = replicate (length ?A') 0"
  obtain w1 w2 w3 w4 where w: "w = [w1, w2, w3, w4]" using len4 [OF lw] by blast
  let ?v = "[w1, w2, w3, w4 - 2 * tx * w1 - 2 * ty * w2 - 2 * tz * w3]"
  have "matvec ?A ?v = replicate (length ?A) 0"
    using z unfolding w translated_matvec by simp
  moreover have "length ?v = 4" by simp
  ultimately have "?v = replicate 4 0"
    using assms unfolding full_column_rank_def by blast
  then show "w = replicate 4 0"
    by (auto simp: w eval_nat_numeral)
qed

lemma translated_lstsq:
  assumes fr: "full_column_rank 4 (map (\<lambda>(x, y, z). [- 2 * x, - 2 * y, - 2 * z, 1]) ps)"
    and u: "lstsq 4 (map (\<lambda>(x, y, z). [- 2 * x, - 2 * y, - 2 * z, 1]) ps)
       (map (\<lambda>(x, y, z). - (x\<^sup>2 + y\<^sup>2 + z\<^sup>2)) ps) = [cx, cy, cz, k]"
  shows "lstsq 4 (map (\<lambda>(x, y, z). [- 2 * x, - 2 * y, - 2 * z, 1]) (map (translate (tx, ty, tz)) ps))
       (map (\<lambda>(x, y, z). - (x\<^sup>2 + y\<^sup>2 + z\<^sup>2)) (map (translate (tx, ty, tz)) ps)) =
     [cx + tx, cy + ty, cz + tz, k + 2 * (cx * tx + cy * ty + cz * tz) + (tx\<^sup>2 + ty\<^sup>2 + tz\<^sup>2)]"
proof -
  let ?A = "map (\<lambda>(x, y, z). [- 2 * x, - 2 * y, - 2 * z, 1]) ps"
  let ?b = "map (\<lambda>(x, y, z). - (x\<^sup>2 + y\<^sup>2 + z\<^sup>2)) ps"
  let ?ps' = "map (translate (tx, ty, tz)) ps"
  let ?A' = "map (\<lambda>(x, y, z). [- 2 * x, - 2 * y, - 2 * z, 1]) ?ps'"
  let ?b' = "map (\<lambda>(x, y, z). - (x\<^sup>2 + y\<^sup>2 + z\<^sup>2)) ?ps'"
  let ?v = "[cx + tx, cy + ty, cz + tz, k + 2 * (cx * tx + cy * ty + cz * tz) + (tx\<^sup>2 + ty\<^sup>2 + tz\<^sup>2)]"
  let ?e = "residual ?A ?b [cx, cy, cz, k]"
  have sys: "build_system ps = (?A, ?b)" by (rule build_system_eq)
  have sys': "build_system ?ps' = (?A', ?b')" by (rule build_system_eq)
  have n: "dot c ?e = 0" if "c \<in> set (columns 4 ?A)" for c
    using lstsq_residual_normal [OF system_shape(1,2) [OF sys] that] by (simp only: u)
  have n1: "dot (map (\<lambda>(x, y, z). - 2 * x) ps) ?e = 0"
    by (rule n) (simp only: sphere_columns, simp)
  have n2: "dot (map (\<lambda>(x, y, z). - 2 * y) ps) ?e = 0"
    by (rule n) (simp only: sphere_columns, simp)
  have n3: "dot (map (\<lambda>(x, y, z). - 2 * z) ps) ?e = 0"
    by (rule n) (simp only: sphere_columns, simp)
  have n4: "dot (map (\<lambda>p. 1) ps) ?e = 0"
    by (rule n) (simp only: sphere_columns, simp)
  have normal': "\<forall>c \<in> set (columns 4 ?A'). dot c (residual ?A' ?b' ?v) = 0"
    unfolding translated_residual translated_columns
    by (simp only: list.set ball_simps dot_map_add n1 n2 n3 n4) simp
  show ?thesis
    by (rule lstsq_unique [OF system_shape(1,2) [OF sys'] translated_full_rank [OF fr] _ normal'])
      simp
qed

text \<open>
  Claim C10. In exact arithmetic the fit follows a translation: when \<open>A\<close> has full column
  rank, adding a vector \<open>t\<close> to every point adds \<open>t\<close> to the fitted centre and leaves the
  radius as it was.
\<close>

theorem fit_translation:
  assumes "full_column_rank 4 (fst (build_system ps))" and "fit ps = Inr res"
  shows "fit (map (translate t) ps) =
    Inr \<lparr>center = map2 (\<lambda>c d. c + d) (center res) (np_array t), radius = radius res\<rparr>"
proof -
  obtain tx ty tz where t: "t = (tx, ty, tz)" by (cases t)
  let ?A = "map (\<lambda>(x, y, z). [- 2 * x, - 2 * y, - 2 * z, 1]) ps"
  let ?b = "map (\<lambda>(x, y, z). - (x\<^sup>2 + y\<^sup>2 + z\<^sup>2)) ps"
  have fr: "full_column_rank 4 ?A" using assms(1) by (simp add: build_system_eq)
  obtain cx cy cz k where u: "lstsq 4 ?A ?b = [cx, cy, cz, k]"
    using len4 [OF length_lstsq] by blast
  have "fit ps = Inr (fit_result [cx, cy, cz, k])"
    by (simp only: fit_eq build_system_eq fst_conv snd_conv u)
  then have "Inr res = (Inr (fit_result [cx, cy, cz, k]) :: fit_error + SphereFitResult)"
    using assms(2) by simp
  then have res: "res = \<lparr>center = [cx, cy, cz], radius = np_sqrt (cx\<^sup>2 + cy\<^sup>2 + cz\<^sup>2 - k)\<rparr>"
    by (simp add: fit_result_eq)
  have rad: "(cx + tx)\<^sup>2 + (cy + ty)\<^sup>2 + (cz + tz)\<^sup>2 -
      (k + 2 * (cx * tx + cy * ty + cz * tz) + (tx\<^sup>2 + ty\<^sup>2 + tz\<^sup>2)) = cx\<^sup>2 + cy\<^sup>2 + cz\<^sup>2 - k"
    by (simp add: power2_eq_square algebra_simps)
  have "fit (map (translate (tx, ty, tz)) ps) =
      Inr (fit_result [cx + tx, cy + ty, cz + tz,
        k + 2 * (cx * tx + cy * ty + cz * tz) + (tx\<^sup>2 + ty\<^sup>2 + tz\<^sup>2)])"
    by (simp only: fit_eq build_system_eq fst_conv snd_conv translated_lstsq [OF fr u])
  then show ?thesis
    by (simp only: fit_result_eq rad) (simp add: t res)
qed

theorem fit_translation_witness:
  "full_column_rank 4 (fst (build_system [(1, 0, 0), (- 1, 0, 0), (0, 1, 0), (0, 0, 1)])) \<and>
   fit [(1, 0, 0), (- 1, 0, 0), (0, 1, 0), (0, 0, 1)] =
     Inr \<lparr>center = [0, 0, 0], radius = Finite 1\<rparr> \<and>
   fit (map (translate (1, 2, 3)) [(1, 0, 0), (- 1, 0, 0), (0, 1, 0), (0, 0, 1)]) =
     Inr \<lparr>center = [1, 2, 3], radius = Finite 1\<rparr>"
proof -
  have fr: "full_column_rank 4 (fst (build_system [(1, 0, 0), (- 1, 0, 0), (0, 1, 0), (0, 0, 1)]))"
    by (simp only: unit_system fst_conv unit_full_rank)
  have h: "fit [(1, 0, 0), (- 1, 0, 0), (0, 1, 0), (0, 0, 1)] =
     Inr \<lparr>center = [0, 0, 0], radius = Finite 1\<rparr>"
    by (simp add: fit_eq unit_system unit_lstsq fit_result_eq np_sqrt_def)
  show ?thesis
    using fr h fit_translation [OF fr h, of "(1, 2, 3)"] by simp
qed

subsection \<open>Fewer than four points\<close>

lemma one_point_system:
  "build_system [(1, 0, 0)] = ([[- 2, 0, 0, 1]], [- 1])"
  by (simp add: build_system_eq)

lemma one_point_lstsq: "lstsq 4 [[- 2, 0, 0, 1]] [- 1] = [2 / 5, 0, 0, - 1 / 5]"
proof -
  let ?cols = "[[- 2], [0], [0], [1::real]]"
  let ?N = "[[4, 0, 0, - 2], [0, 0, 0, 0], [0, 0, 0, 0], [- 2, 0, 0, 1::real]]"
  have c: "columns 4 [[- 2, 0, 0, 1::real]] = ?cols"
    by (simp add: columns_def upt_conv_Cons)
  have x0: "ls ?cols [- 1] = [1 / 2, 0, 0, 0]"
    by simp
  have N: "gram ?cols = ?N"
    by (simp add: gram_def)
  have z: "ls ?N [1 / 2, 0, 0, 0] = [1 / 10, 0, 0, 0]"
    by simp
  have "matvec ?N [1 / 10, 0, 0, 0] = [2 / 5, 0, 0, - 1 / 5]"
    by (simp add: matvec_def)
  then show ?thesis
    by (simp only: lstsq_def Let_def c x0 N z)
qed

lemma one_point_fit:
  "fit [(1, 0, 0)] = Inr \<lparr>center = [2 / 5, 0, 0], radius = Finite (3 / 5)\<rparr>"
proof -
  have "(2 / 5)\<^sup>2 + 0\<^sup>2 + 0\<^sup>2 - (- 1 / 5) = ((3 / 5)\<^sup>2 :: real)"
    by (simp add: power2_eq_square)
  then have "np_sqrt ((2 / 5)\<^sup>2 + 0\<^sup>2 + 0\<^sup>2 - (- 1 / 5)) = Finite (3 / 5)"
    by (simp only: np_sqrt_def) simp
  then show ?thesis
    by (simp only: fit_eq one_point_system fst_conv snd_conv one_point_lstsq fit_result_eq)
qed

text \<open>
  Claim C5, as the cell behaves. The cell does not count its points. For a cloud of one,
  two or three points it raises no \<open>InsufficientDataError\<close>: it returns the result computed
  from the vector that the solver gives for the underdetermined system, which is the
  minimiser of \<open>\<parallel>A\<cdot>u - b\<parallel>\<^sup>2\<close> of least norm.
\<close>

theorem fit_few_points:
  assumes "ps \<noteq> []" and "length ps < 4" and "build_system ps = (A, b)"
  shows "fit ps = Inr (fit_result (lstsq 4 A b)) \<and>
    (\<forall>v. length v = 4 \<longrightarrow> sq_error A b (lstsq 4 A b) \<le> sq_error A b v) \<and>
    (\<forall>v. length v = 4 \<and> sq_error A b v \<le> sq_error A b (lstsq 4 A b) \<longrightarrow>
       dot (lstsq 4 A b) (lstsq 4 A b) \<le> dot v v)"
proof (intro conjI allI impI)
  show "fit ps = Inr (fit_result (lstsq 4 A b))"
    using assms(3) by (simp add: fit_eq)
next
  fix v :: vec
  assume lv: "length v = 4"
  show "sq_error A b (lstsq 4 A b) \<le> sq_error A b v"
    using lstsq_error_split [OF system_shape(1,2) [OF assms(3)] lv]
      dot_self_nonneg [of "matvec A (map2 (\<lambda>a b. a - b) v (lstsq 4 A b))"]
    by simp
next
  fix v :: vec
  assume v: "length v = 4 \<and> sq_error A b v \<le> sq_error A b (lstsq 4 A b)"
  show "dot (lstsq 4 A b) (lstsq 4 A b) \<le> dot v v"
    using lstsq_min_norm [OF system_shape(1,2) [OF assms(3)]] v by blast
qed

theorem fit_few_points_witness:
  "[(1, 0, 0)] \<noteq> ([] :: point list) \<and> length ([(1, 0, 0)] :: point list) < 4 \<and>
   build_system [(1, 0, 0)] = ([[- 2, 0, 0, 1]], [- 1]) \<and>
   fit [(1, 0, 0)] = Inr (fit_result [2 / 5, 0, 0, - 1 / 5]) \<and>
   sq_error [[- 2, 0, 0, 1]] [- 1] [2 / 5, 0, 0, - 1 / 5] \<le>
     sq_error [[- 2, 0, 0, 1]] [- 1] [0, 0, 0, 0] \<and>
   dot [2 / 5, 0, 0, - 1 / 5] [2 / 5, 0, 0, - 1 / 5] \<le> dot [1 / 2, 0, 0, 0] [1 / 2, 0, 0, 0]"
proof -
  have a: "[(1, 0, 0)] \<noteq> ([] :: point list)" by simp
  have b: "length ([(1, 0, 0)] :: point list) < 4" by simp
  have l0: "length [0, 0, 0, 0::real] = 4" by simp
  have e0: "sq_error [[- 2, 0, 0, 1]] [- 1] [2 / 5, 0, 0, - 1 / 5] = 0"
    by (simp add: sq_error_dot residual_def)
  have e1: "sq_error [[- 2, 0, 0, 1]] [- 1] [1 / 2, 0, 0, 0] = 0"
    by (simp add: sq_error_dot residual_def)
  have l1: "length [1 / 2, 0, 0, 0::real] = 4 \<and>
      sq_error [[- 2, 0, 0, 1]] [- 1] [1 / 2, 0, 0, 0] \<le>
      sq_error [[- 2, 0, 0, 1]] [- 1] [2 / 5, 0, 0, - 1 / 5]"
    by (simp only: e0 e1) simp
  show ?thesis
    using fit_few_points [OF a b one_point_system] a b one_point_system l0 l1
    unfolding one_point_lstsq by blast
qed

text \<open>
  Claim C5, as stated, fails at the single point \<open>(1, 0, 0)\<close>: there is no
  \<open>InsufficientDataError\<close>; the fit is the sphere of least norm through the point, with
  centre \<open>(2/5, 0, 0)\<close> and radius \<open>3/5\<close>.
\<close>

theorem fit_one_point:
  "length ([(1, 0, 0)] :: point list) < 4 \<and>
   fit [(1, 0, 0)] = Inr \<lparr>center = [2 / 5, 0, 0], radius = Finite (3 / 5)\<rparr> \<and>
   fit [(1, 0, 0)] \<noteq> Inl InsufficientDataError"
  by (simp add: one_point_fit)

subsection \<open>Rank-deficient systems\<close>

lemma planar_system:
  "build_system [(1, 0, 0), (- 1, 0, 0), (0, 1, 0), (0, - 1, 0)] =
     ([[- 2, 0, 0, 1], [2, 0, 0, 1], [0, - 2, 0, 1], [0, 2, 0, 1]], [- 1, - 1, - 1, - 1])"
  by (simp add: build_system_eq)

lemma planar_lstsq:
  "lstsq 4 [[- 2, 0, 0, 1], [2, 0, 0, 1], [0, - 2, 0, 1], [0, 2, 0, 1]] [- 1, - 1, - 1, - 1] =
     [0, 0, 0, - 1]"
proof -
  let ?cols = "[[- 2, 2, 0, 0], [0, 0, - 2, 2], [0, 0, 0, 0], [1, 1, 1, 1::real]]"
  let ?N = "[[8, 0, 0, 0], [0, 8, 0, 0], [0, 0, 0, 0], [0, 0, 0, 4::real]]"
  have c: "columns 4 [[- 2, 0, 0, 1], [2, 0, 0, 1], [0, - 2, 0, 1], [0, 2, 0, 1::real]] = ?cols"
    by (simp add: columns_def upt_conv_Cons)
  have x0: "ls ?cols [- 1, - 1, - 1, - 1] = [0, 0, 0, - 1]"
    by simp
  have N: "gram ?cols = ?N"
    by (simp add: gram_def)
  have z: "ls ?N [0, 0, 0, - 1] = [0, 0, 0, - 1 / 4]"
    by simp
  have "matvec ?N [0, 0, 0, - 1 / 4] = [0, 0, 0, - 1]"
    by (simp add: matvec_def)
  then show ?thesis
    by (simp only: lstsq_def Let_def c x0 N z)
qed

lemma planar_fit:
  "fit [(1, 0, 0), (- 1, 0, 0), (0, 1, 0), (0, - 1, 0)] =
     Inr \<lparr>center = [0, 0, 0], radius = Finite 1\<rparr>"
  by (simp add: fit_eq planar_system planar_lstsq fit_result_eq np_sqrt_def)

lemma planar_rank_deficient:
  "\<not> full_column_rank 4 [[- 2, 0, 0, 1], [2, 0, 0, 1], [0, - 2, 0, 1], [0, 2, 0, 1]]"
proof
  assume "full_column_rank 4 [[- 2, 0, 0, 1], [2, 0, 0, 1], [0, - 2, 0, 1], [0, 2, 0, 1]]"
  moreover have "length [0, 0, 1, 0::real] = 4" by simp
  moreover have "matvec [[- 2, 0, 0, 1], [2, 0, 0, 1], [0, - 2, 0, 1], [0, 2, 0, 1]] [0, 0, 1, 0] =
      replicate (length [[- 2, 0, 0, 1], [2, 0, 0, 1], [0, - 2, 0, 1], [0, 2, 0, 1::real]]) 0"
    by (simp add: matvec_def eval_nat_numeral)
  ultimately have "[0, 0, 1, 0::real] = replicate 4 0"
    unfolding full_column_rank_def by blast
  then show False by (simp add: eval_nat_numeral)
qed

lemma rank_deficient_not_unique:
  assumes rows: "\<forall>r \<in> set A. length r = 4" and lb: "length A = length b"
    and nfr: "\<not> full_column_rank 4 A"
  shows "\<exists>v. length v = 4 \<and> v \<noteq> lstsq 4 A b \<and> sq_error A b v = sq_error A b (lstsq 4 A b)"
proof -
  obtain w :: vec where lw: "length w = 4" and Aw: "matvec A w = replicate (length A) 0"
    and w0: "w \<noteq> replicate 4 0"
    using nfr unfolding full_column_rank_def by blast
  obtain w1 w2 w3 w4 where w: "w = [w1, w2, w3, w4]" using len4 [OF lw] by blast
  obtain u1 u2 u3 u4 where u: "lstsq 4 A b = [u1, u2, u3, u4]"
    using len4 [OF length_lstsq] by blast
  let ?v = "[u1 + w1, u2 + w2, u3 + w3, u4 + w4]"
  have normal: "\<forall>c \<in> set (columns 4 A). dot c (residual A b [u1, u2, u3, u4]) = 0"
    using lstsq_residual_normal [OF rows lb] by (simp add: u)
  have "sq_error A b ?v = sq_error A b [u1, u2, u3, u4] +
      dot (matvec A [w1, w2, w3, w4]) (matvec A [w1, w2, w3, w4])"
    by (rule sq_error_shift [OF rows lb normal])
  then have "sq_error A b ?v = sq_error A b (lstsq 4 A b)"
    using Aw by (simp add: u w dot_replicate_zero)
  moreover have "?v \<noteq> lstsq 4 A b"
    unfolding u using w0 by (auto simp: w eval_nat_numeral)
  moreover have "length ?v = 4" by simp
  ultimately show ?thesis by blast
qed

text \<open>
  Claim C6, as the cell behaves. The cell discards the rank that the solver reports. For a
  non-empty cloud whose matrix \<open>A\<close> is rank-deficient it raises nothing and returns the
  result computed from the solver's vector, which still minimises \<open>\<parallel>A\<cdot>u - b\<parallel>\<^sup>2\<close>, though no
  longer as the only minimiser.
\<close>

theorem fit_rank_deficient:
  assumes "ps \<noteq> []" and "build_system ps = (A, b)" and "\<not> full_column_rank 4 A"
  shows "fit ps = Inr (fit_result (lstsq 4 A b)) \<and>
    (\<forall>v. length v = 4 \<longrightarrow> sq_error A b (lstsq 4 A b) \<le> sq_error A b v) \<and>
    (\<exists>v. length v = 4 \<and> v \<noteq> lstsq 4 A b \<and> sq_error A b v = sq_error A b (lstsq 4 A b))"
proof (intro conjI allI impI)
  show "fit ps = Inr (fit_result (lstsq 4 A b))"
    using assms(2) by (simp add: fit_eq)
  show "\<exists>v. length v = 4 \<and> v \<noteq> lstsq 4 A b \<and> sq_error A b v = sq_error A b (lstsq 4 A b)"
    by (rule rank_deficient_not_unique [OF system_shape(1,2) [OF assms(2)] assms(3)])
next
  fix v :: vec
  assume lv: "length v = 4"
  show "sq_error A b (lstsq 4 A b) \<le> sq_error A b v"
    using lstsq_error_split [OF system_shape(1,2) [OF assms(2)] lv]
      dot_self_nonneg [of "matvec A (map2 (\<lambda>a b. a - b) v (lstsq 4 A b))"]
    by simp
qed

theorem fit_rank_deficient_witness:
  "[(1, 0, 0), (- 1, 0, 0), (0, 1, 0), (0, - 1, 0)] \<noteq> ([] :: point list) \<and>
   build_system [(1, 0, 0), (- 1, 0, 0), (0, 1, 0), (0, - 1, 0)] =
     ([[- 2, 0, 0, 1], [2, 0, 0, 1], [0, - 2, 0, 1], [0, 2, 0, 1]], [- 1, - 1, - 1, - 1]) \<and>
   \<not> full_column_rank 4 [[- 2, 0, 0, 1], [2, 0, 0, 1], [0, - 2, 0, 1], [0, 2, 0, 1]] \<and>
   fit [(1, 0, 0), (- 1, 0, 0), (0, 1, 0), (0, - 1, 0)] = Inr (fit_result [0, 0, 0, - 1]) \<and>
   sq_error [[- 2, 0, 0, 1], [2, 0, 0, 1], [0, - 2, 0, 1], [0, 2, 0, 1]] [- 1, - 1, - 1, - 1]
       [0, 0, 0, - 1] \<le>
   sq_error [[- 2, 0, 0, 1], [2, 0, 0, 1], [0, - 2, 0, 1], [0, 2, 0, 1]] [- 1, - 1, - 1, - 1]
       [0, 0, 5, - 1] \<and>
   (\<exists>v. length v = 4 \<and> v \<noteq> [0, 0, 0, - 1] \<and>
     sq_error [[- 2, 0, 0, 1], [2, 0, 0, 1], [0, - 2, 0, 1], [0, 2, 0, 1]] [- 1, - 1, - 1, - 1] v =
     sq_error [[- 2, 0, 0, 1], [2, 0, 0, 1], [0, - 2, 0, 1], [0, 2, 0, 1]] [- 1, - 1, - 1, - 1]
       [0, 0, 0, - 1])"
proof -
  have ne: "[(1, 0, 0), (- 1, 0, 0), (0, 1, 0), (0, - 1, 0)] \<noteq> ([] :: point list)" by simp
  have lv: "length [0, 0, 5, - 1 :: real] = 4" by simp
  show ?thesis
    using fit_rank_deficient [OF ne planar_system planar_rank_deficient] ne planar_system
      planar_rank_deficient lv
    unfolding planar_lstsq by blast
qed

text \<open>
  Claim C6, as stated, fails at four points of the plane \<open>z = 0\<close>: the matrix is
  rank-deficient, there is no \<open>SingularSystemError\<close>, and the fit is the unit sphere
  centred at the origin.
\<close>

theorem fit_coplanar:
  "\<not> full_column_rank 4 (fst (build_system [(1, 0, 0), (- 1, 0, 0), (0, 1, 0), (0, - 1, 0)])) \<and>
   fit [(1, 0, 0), (- 1, 0, 0), (0, 1, 0), (0, - 1, 0)] =
     Inr \<lparr>center = [0, 0, 0], radius = Finite 1\<rparr> \<and>
   fit [(1, 0, 0), (- 1, 0, 0), (0, 1, 0), (0, - 1, 0)] \<noteq> Inl SingularSystemError"
  by (simp add: planar_fit planar_system planar_rank_deficient)

subsection \<open>A negative value under the square root\<close>




end
